theory Spec2Isabelle
  imports Complex_Main
begin

section \<open>Python values and built-ins used by \<open>pdf_generator.py\<close>\<close>

text \<open>
  The exceptions that can be raised while \<open>generate\<close> runs. An exception that nothing
  catches leaves \<open>main\<close> and reaches the interpreter.
\<close>

datatype exn = ValueError | OverflowError | KeyError | OSError

text \<open>
  How a call ends: it returns, it raises \<open>SystemExit\<close> through \<open>sys.exit(code)\<close>, or it
  raises an exception that is not caught.
\<close>

datatype outcome = Returned | SysExit int | Raised exn

text \<open>
  The process exit status the interpreter reports for each ending: 0 after a normal
  return, the code given to \<open>sys.exit\<close>, and 1 after an uncaught exception.
\<close>

fun exit_status :: "outcome \<Rightarrow> int" where
  "exit_status Returned = 0"
| "exit_status (SysExit code) = code"
| "exit_status (Raised e) = 1"

text \<open>
  A cell of the table that pandas hands over: an integer, a finite float (the rational
  it denotes), NaN (what pandas stores for a missing field), an infinity (\<open>True\<close> for the
  negative one), a string (characters are code points below 256) or a boolean.
\<close>

datatype pyval = PInt int | PFloat rat | PNaN | PInf bool | PStr string | PBool bool

subsection \<open>\<open>int(x)\<close>\<close>

text \<open>
  The blanks \<open>int\<close> skips before and after a literal: tab, line feed, vertical tab,
  form feed, carriage return and space, and of the code points from 128 to 255 the two
  that are white space, next line (133) and no-break space (160). The separators 28 to 31
  are not skipped.
\<close>

definition is_space :: "char \<Rightarrow> bool" where
  "is_space c = ((of_char c :: nat) \<in> {9, 10, 11, 12, 13, 32, 133, 160})"

definition is_digit :: "char \<Rightarrow> bool" where
  "is_digit c = (48 \<le> (of_char c :: nat) \<and> (of_char c :: nat) \<le> 57)"

definition digit_val :: "char \<Rightarrow> int" where
  "digit_val c = int (of_char c) - 48"

definition strip :: "string \<Rightarrow> string" where
  "strip s = rev (dropWhile is_space (rev (dropWhile is_space s)))"

text \<open>
  The digits of an integer literal after its first digit: digits, with single
  underscores allowed between two digits.
\<close>

fun int_digits :: "int \<Rightarrow> string \<Rightarrow> int option" where
  "int_digits acc [] = Some acc"
| "int_digits acc (c # cs) =
     (if is_digit c then int_digits (10 * acc + digit_val c) cs
      else if c = CHR ''_'' then
        (case cs of
           [] \<Rightarrow> None
         | d # ds \<Rightarrow> if is_digit d then int_digits (10 * acc + digit_val d) ds else None)
      else None)"

definition int_literal :: "string \<Rightarrow> int option" where
  "int_literal s =
     (case s of
        [] \<Rightarrow> None
      | c # cs \<Rightarrow> if is_digit c then int_digits (digit_val c) cs else None)"

text \<open>CPython's default limit on the number of digits of a string given to \<open>int\<close>.\<close>

definition int_max_str_digits :: nat where
  "int_max_str_digits = 4300"

definition int_of_str :: "string \<Rightarrow> exn + int" where
  "int_of_str s =
     (let t = strip s;
          neg = (case t of [] \<Rightarrow> False | c # cs \<Rightarrow> c = CHR ''-'');
          body = (case t of [] \<Rightarrow> [] | c # cs \<Rightarrow> if c = CHR ''-'' \<or> c = CHR ''+'' then cs else t)
      in if int_max_str_digits < length (filter is_digit body) then Inl ValueError
         else (case int_literal body of
                 None \<Rightarrow> Inl ValueError
               | Some n \<Rightarrow> Inr (if neg then - n else n)))"

text \<open>
  \<open>int(x)\<close>: an integer is itself, a boolean is 0 or 1, a finite float is truncated
  towards zero, NaN raises \<open>ValueError\<close>, an infinity raises \<open>OverflowError\<close>, a string
  is parsed as a decimal literal or raises \<open>ValueError\<close>.
\<close>

fun py_int :: "pyval \<Rightarrow> exn + int" where
  "py_int (PInt i) = Inr i"
| "py_int (PFloat q) = Inr (if 0 \<le> q then \<lfloor>q\<rfloor> else \<lceil>q\<rceil>)"
| "py_int PNaN = Inl ValueError"
| "py_int (PInf neg) = Inl OverflowError"
| "py_int (PStr s) = int_of_str s"
| "py_int (PBool b) = Inr (if b then 1 else 0)"

subsection \<open>\<open>str(x)\<close>\<close>

definition digit_char :: "nat \<Rightarrow> char" where
  "digit_char d = char_of (48 + d)"

fun show_nat :: "nat \<Rightarrow> string" where
  "show_nat n = (if n < 10 then [digit_char n] else show_nat (n div 10) @ [digit_char (n mod 10)])"

declare show_nat.simps [simp del]

definition show_int :: "int \<Rightarrow> string" where
  "show_int i = (if i < 0 then CHR ''-'' # show_nat (nat (- i)) else show_nat (nat i))"

text \<open>
  \<open>str(x)\<close>. The shortest decimal text of a finite float is the interpreter's business:
  it is the parameter \<open>fr\<close>.
\<close>

fun py_str :: "(rat \<Rightarrow> string) \<Rightarrow> pyval \<Rightarrow> string" where
  "py_str fr (PInt i) = show_int i"
| "py_str fr (PFloat q) = fr q"
| "py_str fr PNaN = ''nan''"
| "py_str fr (PInf neg) = (if neg then ''-inf'' else ''inf'')"
| "py_str fr (PStr s) = s"
| "py_str fr (PBool b) = (if b then ''True'' else ''False'')"

subsection \<open>\<open>range(start, stop, step)\<close> and \<open>for\<close>\<close>

text \<open>
  A zero step raises \<open>ValueError\<close>. Otherwise the range has
  \<open>(hi - lo - 1) div |step| + 1\<close> elements when \<open>lo < hi\<close> and none when not, where
  \<open>lo, hi\<close> are \<open>start, stop\<close> for a positive step and \<open>stop, start\<close> for a negative one.
\<close>

definition range_length :: "int \<Rightarrow> int \<Rightarrow> int \<Rightarrow> nat" where
  "range_length start stop step =
     (if 0 < step then (if stop \<le> start then 0 else nat ((stop - start - 1) div step + 1))
      else (if start \<le> stop then 0 else nat ((start - stop - 1) div (- step) + 1)))"

definition py_range :: "int \<Rightarrow> int \<Rightarrow> int \<Rightarrow> exn + int list" where
  "py_range start stop step =
     (if step = 0 then Inl ValueError
      else Inr (map (\<lambda>i. start + int i * step) [0..<range_length start stop step]))"

text \<open>
  A \<open>for\<close> loop over a list whose body may raise or exit: the loop stops at the first
  iteration that does not return, with the state as that iteration left it.
\<close>

fun for_each :: "'a list \<Rightarrow> ('a \<Rightarrow> 's \<Rightarrow> outcome \<times> 's) \<Rightarrow> 's \<Rightarrow> outcome \<times> 's" where
  "for_each [] body s = (Returned, s)"
| "for_each (x # xs) body s =
     (case body x s of
        (oc, s1) \<Rightarrow> if oc = Returned then for_each xs body s1 else (oc, s1))"

section \<open>The table read from the CSV file\<close>

text \<open>
  A row as \<open>iterrows\<close> yields it: the cells labelled by their column names, in column
  order. \<open>row[k]\<close> raises \<open>KeyError\<close> for a label that is absent; \<open>row.get(k, d)\<close> gives
  \<open>d\<close> then.
\<close>

type_synonym row = "(string \<times> pyval) list"

definition row_getitem :: "row \<Rightarrow> string \<Rightarrow> exn + pyval" where
  "row_getitem r k = (case map_of r k of None \<Rightarrow> Inl KeyError | Some v \<Rightarrow> Inr v)"

definition row_get :: "row \<Rightarrow> string \<Rightarrow> pyval \<Rightarrow> pyval" where
  "row_get r k d = (case map_of r k of None \<Rightarrow> d | Some v \<Rightarrow> v)"

record dataframe =
  df_columns :: "string list"
  df_rows :: "row list"

text \<open>Every row of a table has exactly the table's columns.\<close>

definition wf_dataframe :: "dataframe \<Rightarrow> bool" where
  "wf_dataframe df = list_all (\<lambda>r. map fst r = df_columns df) (df_rows df)"

section \<open>The document and the process\<close>

text \<open>
  The FPDF object is modelled by the calls the program makes on it, in order; the
  drawing calls themselves are taken not to raise.
\<close>

datatype pdf_call =
    SetAutoPageBreak bool int
  | AddPage
  | SetFont string string int
  | SetTextColor int int int
  | Cell int int string string int
  | Line int int int int
  | Ln int

text \<open>The attributes of a \<open>PDFGenerator\<close> object.\<close>

record PDFGenerator =
  csv_path :: string
  output_path :: string
  line_spacing :: int
  font_size :: int
  pdf :: "pdf_call list"

text \<open>
  What the program acts on outside itself: the lines printed to standard output and the
  documents written to disk, by path. A written document is given by the calls the program
  had made on the FPDF object when \<open>FPDF.output\<close> wrote it.
\<close>

record process =
  stdout :: "string list"
  disk :: "string \<rightharpoonup> pdf_call list"

text \<open>
  What the program reads from outside itself, none of it code of this repository:
  whether a path is an existing file, what \<open>pandas.read_csv\<close> makes of it (the text of
  the exception it raises, or the table), whether \<open>FPDF.output\<close> raises when it writes to
  a path (a failed write is taken to leave the disk as it was), the text of a float, and
  the order in which the interpreter prints the two elements of the set
  \<open>required_columns\<close>.
\<close>

record world =
  isfile :: "string \<Rightarrow> bool"
  read_csv :: "string \<Rightarrow> string + dataframe"
  output_raises :: "string \<Rightarrow> exn option"
  float_repr :: "rat \<Rightarrow> string"
  topic_printed_first :: bool

definition print :: "string \<Rightarrow> process \<Rightarrow> process" where
  "print line p = p\<lparr>stdout := stdout p @ [line]\<rparr>"

definition call :: "pdf_call \<Rightarrow> PDFGenerator \<Rightarrow> PDFGenerator" where
  "call c self = self\<lparr>pdf := pdf self @ [c]\<rparr>"

section \<open>\<open>PDFGenerator\<close>\<close>

text \<open>
  \<open>__init__\<close> stores the four attributes, creates the FPDF object and makes one call on it,
  \<open>set_auto_page_break(auto=False, margin=0)\<close>.
\<close>

definition init :: "string \<Rightarrow> string \<Rightarrow> int \<Rightarrow> int \<Rightarrow> PDFGenerator" where
  "init csv_path' output_path' line_spacing' font_size' =
     \<lparr>csv_path = csv_path', output_path = output_path', line_spacing = line_spacing',
      font_size = font_size', pdf = [SetAutoPageBreak False 0]\<rparr>"

definition add_page :: "string \<Rightarrow> PDFGenerator \<Rightarrow> outcome \<times> PDFGenerator" where
  "add_page topic self =
     (let s1 = call AddPage self;
          s2 = call (SetFont ''Arial'' ''B'' (font_size s1)) s1;
          s3 = call (SetTextColor 100 100 100) s2;
          s4 = call (Cell 0 12 topic ''L'' 1) s3
      in case py_range 20 298 (line_spacing s4) of
           Inl e \<Rightarrow> (Raised e, s4)
         | Inr ys \<Rightarrow>
             (case for_each ys (\<lambda>y s. (Returned, call (Line 10 y 200 y) s)) s4 of
                (oc, s5) \<Rightarrow>
                  if oc \<noteq> Returned then (oc, s5)
                  else
                    (let s6 = call (Ln 265) s5;
                         s7 = call (SetFont ''Arial'' ''I'' 8) s6;
                         s8 = call (SetTextColor 180 180 180) s7;
                         s9 = call (Cell 0 10 topic ''R'' 0) s8
                     in (Returned, s9))))"

text \<open>The body of the loop over the rows in \<open>generate\<close>.\<close>

definition row_body :: "world \<Rightarrow> row \<Rightarrow> PDFGenerator \<Rightarrow> outcome \<times> PDFGenerator" where
  "row_body w r self =
     (case row_getitem r ''Topic'' of
        Inl e \<Rightarrow> (Raised e, self)
      | Inr tv \<Rightarrow>
          (let topic = py_str (float_repr w) tv
           in case py_int (row_get r ''Pages'' (PInt 1)) of
                Inl e \<Rightarrow> (Raised e, self)
              | Inr pages \<Rightarrow>
                  (case add_page topic self of
                     (oc, s1) \<Rightarrow>
                       if oc \<noteq> Returned then (oc, s1)
                       else
                         (case py_range 0 (pages - 1) 1 of
                            Inl e \<Rightarrow> (Raised e, s1)
                          | Inr ks \<Rightarrow> for_each ks (\<lambda>k. add_page topic) s1))))"

definition required_columns_repr :: "world \<Rightarrow> string" where
  "required_columns_repr w =
     (let q = [CHR 0x27]
      in if topic_printed_first w
         then ''{'' @ q @ ''Topic'' @ q @ '', '' @ q @ ''Pages'' @ q @ ''}''
         else ''{'' @ q @ ''Pages'' @ q @ '', '' @ q @ ''Topic'' @ q @ ''}'')"

definition generate :: "world \<Rightarrow> PDFGenerator \<Rightarrow> process \<Rightarrow> outcome \<times> PDFGenerator \<times> process" where
  "generate w self p =
     (if \<not> isfile w (csv_path self)
      then (SysExit 1, self, print (''Error: CSV file not found: '' @ csv_path self) p)
      else
        (case read_csv w (csv_path self) of
           Inl e \<Rightarrow> (SysExit 1, self, print (''Error reading CSV: '' @ e) p)
         | Inr df \<Rightarrow>
             if \<not> ({''Topic'', ''Pages''} \<subseteq> set (df_columns df))
             then (SysExit 1, self,
                   print (''Error: CSV must contain columns: '' @ required_columns_repr w) p)
             else
               (case for_each (df_rows df) (row_body w) self of
                  (oc, s1) \<Rightarrow>
                    if oc \<noteq> Returned then (oc, s1, p)
                    else
                      (case output_raises w (output_path s1) of
                         Some e \<Rightarrow> (Raised e, s1, p)
                       | None \<Rightarrow>
                           (Returned, s1,
                            print (''PDF generated successfully: '' @ output_path s1)
                              (p\<lparr>disk := (disk p)(output_path s1 \<mapsto> pdf s1)\<rparr>))))))"

text \<open>The command line as \<open>argparse\<close> hands it to \<open>main\<close>: \<open>--csv\<close>, \<open>--output\<close>,
  \<open>--lines\<close> and \<open>--fontsize\<close>.\<close>

record args =
  arg_csv :: string
  arg_output :: string
  arg_lines :: int
  arg_fontsize :: int

definition main :: "world \<Rightarrow> args \<Rightarrow> process \<Rightarrow> outcome \<times> PDFGenerator \<times> process" where
  "main w a p = generate w (init (arg_csv a) (arg_output a) (arg_lines a) (arg_fontsize a)) p"

section \<open>Reading a document\<close>

text \<open>
  The calls of a document, split at \<open>AddPage\<close>: the calls made before the first page,
  and then one list of calls for each page, in order.
\<close>

fun page_groups :: "pdf_call list \<Rightarrow> pdf_call list \<times> pdf_call list list" where
  "page_groups [] = ([], [])"
| "page_groups (c # cs) =
     (case page_groups cs of
        (cur, ps) \<Rightarrow> if c = AddPage then ([], cur # ps) else (c # cur, ps))"

definition pages_of :: "pdf_call list \<Rightarrow> pdf_call list list" where
  "pages_of doc = snd (page_groups doc)"

fun is_line :: "pdf_call \<Rightarrow> bool" where
  "is_line (Line x1 y1 x2 y2) = True"
| "is_line c = False"

definition rule_lines :: "pdf_call list \<Rightarrow> pdf_call list" where
  "rule_lines page = filter is_line page"

fun cell_text :: "pdf_call \<Rightarrow> string option" where
  "cell_text (Cell w h txt align nl) = Some txt"
| "cell_text c = None"

text \<open>The texts a page shows, in the order drawn: the header, then the footer.\<close>

definition cell_texts :: "pdf_call list \<Rightarrow> string list" where
  "cell_texts page = List.map_filter cell_text page"

text \<open>
  The calls \<open>add_page\<close> makes after \<open>AddPage\<close> when it runs to its end, for a font size,
  a line spacing and a topic.
\<close>

definition page_body :: "int \<Rightarrow> int \<Rightarrow> string \<Rightarrow> pdf_call list" where
  "page_body fs step topic =
     [SetFont ''Arial'' ''B'' fs, SetTextColor 100 100 100, Cell 0 12 topic ''L'' 1] @
     map (\<lambda>i. Line 10 (20 + int i * step) 200 (20 + int i * step))
       [0..<range_length 20 298 step] @
     [Ln 265, SetFont ''Arial'' ''I'' 8, SetTextColor 180 180 180, Cell 0 10 topic ''R'' 0]"

text \<open>
  What the loop of \<open>generate\<close> reads from a row: the topic text and the page count,
  when the row has them.
\<close>

definition row_topic :: "world \<Rightarrow> row \<Rightarrow> string option" where
  "row_topic w r =
     (case row_getitem r ''Topic'' of
        Inl e \<Rightarrow> None
      | Inr tv \<Rightarrow> Some (py_str (float_repr w) tv))"

definition row_pages :: "row \<Rightarrow> int option" where
  "row_pages r =
     (case py_int (row_get r ''Pages'' (PInt 1)) of
        Inl e \<Rightarrow> None
      | Inr n \<Rightarrow> Some n)"

section \<open>Example runs\<close>

text \<open>
  A world in which \<open>topics.csv\<close> is the only file, \<open>read_csv\<close> gives \<open>content\<close> and
  \<open>FPDF.output\<close> ends as \<open>write_error\<close> says.
\<close>

definition example_world :: "string + dataframe \<Rightarrow> exn option \<Rightarrow> world" where
  "example_world content write_error =
     \<lparr>isfile = (\<lambda>path. path = ''topics.csv''),
      read_csv = (\<lambda>path. content),
      output_raises = (\<lambda>path. write_error),
      float_repr = (\<lambda>q. ''0.0''),
      topic_printed_first = True\<rparr>"

definition example_args :: "string \<Rightarrow> int \<Rightarrow> args" where
  "example_args path spacing =
     \<lparr>arg_csv = path, arg_output = ''output.pdf'', arg_lines = spacing, arg_fontsize = 24\<rparr>"

definition fresh_process :: process where
  "fresh_process = \<lparr>stdout = [], disk = Map.empty\<rparr>"

definition table :: "(pyval \<times> pyval) list \<Rightarrow> dataframe" where
  "table cells =
     \<lparr>df_columns = [''Topic'', ''Pages''],
      df_rows = map (\<lambda>(t, n). [(''Topic'', t), (''Pages'', n)]) cells\<rparr>"

section \<open>Auxiliary facts\<close>

lemma call_simps [simp]:
  "pdf (call c g) = pdf g @ [c]"
  "line_spacing (call c g) = line_spacing g"
  "font_size (call c g) = font_size g"
  "output_path (call c g) = output_path g"
  "csv_path (call c g) = csv_path g"
  by (simp_all add: call_def)

lemma for_each_lines:
  "for_each ys (\<lambda>y s. (Returned, call (Line 10 y 200 y) s)) g =
     (Returned, g\<lparr>pdf := pdf g @ map (\<lambda>y. Line 10 y 200 y) ys\<rparr>)"
  by (induction ys arbitrary: g) (simp_all add: call_def)

lemma add_page_nonzero:
  assumes "line_spacing g \<noteq> 0"
  shows "add_page topic g =
     (Returned, g\<lparr>pdf := pdf g @ AddPage # page_body (font_size g) (line_spacing g) topic\<rparr>)"
  using assms
  apply (simp add: add_page_def py_range_def for_each_lines Let_def)
  apply (simp add: call_def page_body_def comp_def)
  done

lemma add_page_zero:
  assumes "line_spacing g = 0"
  shows "add_page topic g =
     (Raised ValueError,
      g\<lparr>pdf := pdf g @ [AddPage, SetFont ''Arial'' ''B'' (font_size g),
                           SetTextColor 100 100 100, Cell 0 12 topic ''L'' 1]\<rparr>)"
  using assms by (simp add: add_page_def py_range_def Let_def call_def)

lemma for_each_add_page:
  assumes "line_spacing g \<noteq> 0"
  shows "for_each ks (\<lambda>k. add_page topic) g =
     (Returned,
      g\<lparr>pdf := pdf g @
        concat (replicate (length ks) (AddPage # page_body (font_size g) (line_spacing g) topic))\<rparr>)"
  using assms
proof (induction ks arbitrary: g)
  case Nil
  then show ?case by simp
next
  case (Cons k ks)
  let ?g1 = "g\<lparr>pdf := pdf g @ AddPage # page_body (font_size g) (line_spacing g) topic\<rparr>"
  have "line_spacing ?g1 \<noteq> 0" using Cons.prems by simp
  from Cons.IH [OF this] show ?case
    using Cons.prems by (simp add: add_page_nonzero)
qed

lemma range_count: "range_length 0 (n - 1) 1 = nat (n - 1)"
  by (simp add: range_length_def)

lemma row_body_ok:
  assumes "row_topic w r = Some t" and "row_pages r = Some n" and "line_spacing g \<noteq> 0"
  shows "row_body w r g =
     (Returned,
      g\<lparr>pdf := pdf g @
        concat (replicate (nat (max n 1)) (AddPage # page_body (font_size g) (line_spacing g) t))\<rparr>)"
proof -
  from assms(1) obtain tv where tv: "row_getitem r ''Topic'' = Inr tv" "py_str (float_repr w) tv = t"
    by (auto simp: row_topic_def split: sum.splits)
  from assms(2) have n: "py_int (row_get r ''Pages'' (PInt 1)) = Inr n"
    by (auto simp: row_pages_def split: sum.splits)
  let ?g1 = "g\<lparr>pdf := pdf g @ AddPage # page_body (font_size g) (line_spacing g) t\<rparr>"
  have g1: "line_spacing ?g1 \<noteq> 0" using assms(3) by simp
  have cnt: "Suc (nat (n - 1)) = nat (max n 1)" by simp
  have "concat (replicate (nat (max n 1)) (AddPage # page_body (font_size g) (line_spacing g) t))
      = (AddPage # page_body (font_size g) (line_spacing g) t) @
         concat (replicate (nat (n - 1)) (AddPage # page_body (font_size g) (line_spacing g) t))"
    unfolding cnt [symmetric] by simp
  then show ?thesis
    using tv n assms(3)
      for_each_add_page [OF g1, of "map (\<lambda>i. 0 + int i * 1) [0..<nat (n - 1)]" t]
    by (simp add: row_body_def add_page_nonzero py_range_def range_count)
qed

lemma rows_loop_ok:
  assumes "map (row_topic w) rs = map Some ts" and "map row_pages rs = map Some ns"
    and "line_spacing g \<noteq> 0"
  shows "for_each rs (row_body w) g =
     (Returned,
      g\<lparr>pdf := pdf g @
        concat (map (\<lambda>(t, n). concat (replicate (nat (max n 1))
                  (AddPage # page_body (font_size g) (line_spacing g) t))) (zip ts ns))\<rparr>)"
  using assms
proof (induction rs arbitrary: g ts ns)
  case Nil
  then show ?case by simp
next
  case (Cons r rs)
  from Cons.prems(1) obtain t ts' where ts: "ts = t # ts'" "row_topic w r = Some t"
    "map (row_topic w) rs = map Some ts'" by (cases ts) auto
  from Cons.prems(2) obtain n ns' where ns: "ns = n # ns'" "row_pages r = Some n"
    "map row_pages rs = map Some ns'" by (cases ns) auto
  let ?g1 = "g\<lparr>pdf := pdf g @
        concat (replicate (nat (max n 1)) (AddPage # page_body (font_size g) (line_spacing g) t))\<rparr>"
  have step: "row_body w r g = (Returned, ?g1)"
    using ts(2) ns(2) Cons.prems(3) by (rule row_body_ok)
  have "line_spacing ?g1 \<noteq> 0" using Cons.prems(3) by simp
  from Cons.IH [OF ts(3) ns(3) this] show ?case
    by (simp add: step ts(1) ns(1))
qed

lemma page_groups_no_add_page:
  "AddPage \<notin> set pre \<Longrightarrow> page_groups (pre @ rest) = (pre @ fst (page_groups rest), snd (page_groups rest))"
  by (induction pre) (auto split: prod.splits)

lemma page_groups_pages:
  "list_all (\<lambda>b. AddPage \<notin> set b) bodies \<Longrightarrow>
     page_groups (concat (map (\<lambda>b. AddPage # b) bodies)) = ([], bodies)"
  by (induction bodies) (auto simp: page_groups_no_add_page split: prod.splits)

lemma pages_of_pages:
  assumes "AddPage \<notin> set pre" and "list_all (\<lambda>b. AddPage \<notin> set b) bodies"
  shows "pages_of (pre @ concat (map (\<lambda>b. AddPage # b) bodies)) = bodies"
  using assms by (simp add: pages_of_def page_groups_no_add_page page_groups_pages)

lemma page_body_no_add_page: "AddPage \<notin> set (page_body fs step t)"
  by (auto simp: page_body_def)

lemma concat_replicate_pages:
  "concat (map (\<lambda>(t, n). concat (replicate (f n) (AddPage # body t))) tns)
     = concat (map (\<lambda>b. AddPage # b) (concat (map (\<lambda>(t, n). replicate (f n) (body t)) tns)))"
  by (induction tns) auto

lemma page_groups_append:
  "fst (page_groups rest) = [] \<Longrightarrow>
     page_groups (pre @ rest) = (fst (page_groups pre), snd (page_groups pre) @ snd (page_groups rest))"
  by (induction pre) (auto simp: prod_eq_iff split: prod.splits)

lemma pages_of_append:
  assumes "list_all (\<lambda>b. AddPage \<notin> set b) bodies"
  shows "pages_of (pre @ concat (map (\<lambda>b. AddPage # b) bodies)) = pages_of pre @ bodies"
  using assms by (simp add: pages_of_def page_groups_append page_groups_pages)

lemma row_body_pages:
  assumes "row_topic w r = Some t" and "row_pages r = Some n" and "line_spacing g \<noteq> 0"
  shows "fst (row_body w r g) = Returned \<and>
         pages_of (pdf (snd (row_body w r g))) =
           pages_of (pdf g) @ replicate (nat (max n 1)) (page_body (font_size g) (line_spacing g) t)"
proof -
  have "list_all (\<lambda>b. AddPage \<notin> set b)
          (replicate (nat (max n 1)) (page_body (font_size g) (line_spacing g) t))"
    by (simp add: list_all_iff page_body_no_add_page)
  from pages_of_append [OF this, of "pdf g"] show ?thesis
    by (simp add: row_body_ok [OF assms])
qed

lemma generate_valid:
  assumes "isfile w (csv_path g)" and "read_csv w (csv_path g) = Inr df"
    and "{''Topic'', ''Pages''} \<subseteq> set (df_columns df)"
    and "map (row_topic w) (df_rows df) = map Some ts"
    and "map row_pages (df_rows df) = map Some ns"
    and "line_spacing g \<noteq> 0"
  shows "generate w g p =
     (let g' = g\<lparr>pdf := pdf g @
                 concat (map (\<lambda>(t, n). concat (replicate (nat (max n 1))
                   (AddPage # page_body (font_size g) (line_spacing g) t))) (zip ts ns))\<rparr>
      in case output_raises w (output_path g) of
           Some e \<Rightarrow> (Raised e, g', p)
         | None \<Rightarrow>
             (Returned, g',
              print (''PDF generated successfully: '' @ output_path g)
                (p\<lparr>disk := (disk p)(output_path g \<mapsto> pdf g')\<rparr>)))"
  using assms(1-3) rows_loop_ok [OF assms(4-6)]
  by (simp add: generate_def Let_def split: option.splits)

lemma pages_of_rows:
  assumes "AddPage \<notin> set pre"
  shows "pages_of (pre @ concat (map (\<lambda>(t, n). concat (replicate (c n) (AddPage # page_body fs step t))) tns))
     = concat (map (\<lambda>(t, n). replicate (c n) (page_body fs step t)) tns)"
proof -
  have "list_all (\<lambda>b. AddPage \<notin> set b)
          (concat (map (\<lambda>(t, n). replicate (c n) (page_body fs step t)) tns))"
    by (auto simp: list_all_iff page_body_no_add_page)
  from pages_of_pages [OF assms this] show ?thesis
    by (simp only: concat_replicate_pages)
qed

lemma length_pages_rows:
  "length ts = length ns \<Longrightarrow>
   int (length (concat (map (\<lambda>(t, n). replicate (nat (max n 1)) (f t)) (zip ts ns))))
     = sum_list (map (\<lambda>n. max n 1) ns)"
  by (induction ts ns rule: list_induct2) auto

lemma main_valid_pages:
  assumes "isfile w (arg_csv a)" and "read_csv w (arg_csv a) = Inr df"
    and "{''Topic'', ''Pages''} \<subseteq> set (df_columns df)"
    and "map (row_topic w) (df_rows df) = map Some ts"
    and "map row_pages (df_rows df) = map Some ns"
    and "arg_lines a \<noteq> 0"
  shows "pages_of (pdf (fst (snd (main w a p)))) =
           concat (map (\<lambda>(t, n). replicate (nat (max n 1))
             (page_body (arg_fontsize a) (arg_lines a) t)) (zip ts ns))"
    and "output_raises w (arg_output a) = None \<Longrightarrow>
           fst (main w a p) = Returned \<and>
           disk (snd (snd (main w a p))) (arg_output a) = Some (pdf (fst (snd (main w a p))))"
proof -
  let ?g = "init (arg_csv a) (arg_output a) (arg_lines a) (arg_fontsize a)"
  have g: "csv_path ?g = arg_csv a" "output_path ?g = arg_output a" "line_spacing ?g = arg_lines a"
    "font_size ?g = arg_fontsize a" "pdf ?g = [SetAutoPageBreak False 0]"
    by (simp_all add: init_def)
  have gen: "generate w ?g p = (let g' = ?g\<lparr>pdf := pdf ?g @
                 concat (map (\<lambda>(t, n). concat (replicate (nat (max n 1))
                   (AddPage # page_body (font_size ?g) (line_spacing ?g) t))) (zip ts ns))\<rparr>
      in case output_raises w (output_path ?g) of
           Some e \<Rightarrow> (Raised e, g', p)
         | None \<Rightarrow>
             (Returned, g',
              print (''PDF generated successfully: '' @ output_path ?g)
                (p\<lparr>disk := (disk p)(output_path ?g \<mapsto> pdf g')\<rparr>)))"
    by (rule generate_valid) (use assms g in simp_all)
  have pre: "AddPage \<notin> set (pdf ?g)" by (simp add: g)
  show "pages_of (pdf (fst (snd (main w a p)))) =
           concat (map (\<lambda>(t, n). replicate (nat (max n 1))
             (page_body (arg_fontsize a) (arg_lines a) t)) (zip ts ns))"
    using pages_of_rows [OF pre, of "\<lambda>n. nat (max n 1)" "arg_fontsize a" "arg_lines a" "zip ts ns"]
    unfolding main_def gen by (simp add: Let_def g split: option.splits)
  show "fst (main w a p) = Returned \<and>
           disk (snd (snd (main w a p))) (arg_output a) = Some (pdf (fst (snd (main w a p))))"
    if "output_raises w (arg_output a) = None"
    unfolding main_def gen using that by (simp add: Let_def g print_def)
qed

lemma for_each_invariant:
  assumes "\<And>x s. P s \<Longrightarrow> P (snd (body x s))" and "P s"
  shows "P (snd (for_each xs body s))"
  using assms(2)
proof (induction xs arbitrary: s)
  case Nil
  then show ?case by simp
next
  case (Cons x xs)
  from assms(1) [OF Cons.prems, of x] have "P (snd (body x s))" .
  with Cons.IH [of "snd (body x s)"] show ?case
    by (cases "body x s") simp
qed

lemma for_each_rel:
  assumes "\<And>x s1 s2. R s1 s2 \<Longrightarrow>
             fst (b1 x s1) = fst (b2 x s2) \<and> R (snd (b1 x s1)) (snd (b2 x s2))"
    and "R s1 s2"
  shows "fst (for_each xs b1 s1) = fst (for_each xs b2 s2) \<and>
         R (snd (for_each xs b1 s1)) (snd (for_each xs b2 s2))"
  using assms(2)
proof (induction xs arbitrary: s1 s2)
  case Nil
  then show ?case by simp
next
  case (Cons x xs)
  from assms(1) [OF Cons.prems, of x]
  have "fst (b1 x s1) = fst (b2 x s2)" "R (snd (b1 x s1)) (snd (b2 x s2))" by simp_all
  with Cons.IH [of "snd (b1 x s1)" "snd (b2 x s2)"] show ?case
    by (cases "b1 x s1"; cases "b2 x s2") simp
qed

lemma generate_pdf:
  "pdf (fst (snd (generate w g p))) =
     (if isfile w (csv_path g) then
        (case read_csv w (csv_path g) of
           Inl e \<Rightarrow> pdf g
         | Inr df \<Rightarrow>
             if {''Topic'', ''Pages''} \<subseteq> set (df_columns df)
             then pdf (snd (for_each (df_rows df) (row_body w) g))
             else pdf g)
      else pdf g)"
  by (simp add: generate_def split: sum.splits prod.splits option.splits)

lemma add_page_negative:
  assumes "line_spacing g < 0"
  shows "add_page topic g =
     (Returned,
      g\<lparr>pdf := pdf g @
        [AddPage, SetFont ''Arial'' ''B'' (font_size g), SetTextColor 100 100 100,
         Cell 0 12 topic ''L'' 1, Ln 265, SetFont ''Arial'' ''I'' 8,
         SetTextColor 180 180 180, Cell 0 10 topic ''R'' 0]\<rparr>)"
proof -
  have "line_spacing g \<noteq> 0" using assms by simp
  from add_page_nonzero [OF this, of topic] show ?thesis
    using assms by (simp add: page_body_def range_length_def)
qed

lemma add_page_keeps_no_lines:
  assumes "line_spacing g \<le> 0 \<and> rule_lines (pdf g) = []"
  shows "line_spacing (snd (add_page topic g)) \<le> 0 \<and> rule_lines (pdf (snd (add_page topic g))) = []"
proof (cases "line_spacing g = 0")
  case True
  with assms show ?thesis by (simp add: add_page_zero rule_lines_def)
next
  case False
  with assms have "line_spacing g < 0" by simp
  with assms show ?thesis by (simp add: add_page_negative rule_lines_def)
qed

lemma row_body_keeps_no_lines:
  assumes "line_spacing g \<le> 0 \<and> rule_lines (pdf g) = []"
  shows "line_spacing (snd (row_body w r g)) \<le> 0 \<and> rule_lines (pdf (snd (row_body w r g))) = []"
proof -
  let ?P = "\<lambda>g. line_spacing g \<le> 0 \<and> rule_lines (pdf g) = []"
  have inner: "?P (snd (for_each ks (\<lambda>k. add_page t) s))" if "?P s" for ks :: "int list" and t s
  proof (rule for_each_invariant [where P = ?P and s = s])
    show "?P (snd (add_page t s'))" if "?P s'" for x :: int and s'
      using that by (rule add_page_keeps_no_lines)
    show "?P s" by (fact that)
  qed
  have first: "?P (snd (add_page t g))" for t
    using assms by (rule add_page_keeps_no_lines)
  show ?thesis
  proof (cases "row_getitem r ''Topic''")
    case (Inl e)
    with assms show ?thesis by (simp add: row_body_def)
  next
    case (Inr tv)
    show ?thesis
    proof (cases "py_int (row_get r ''Pages'' (PInt 1))")
      case (Inl e)
      with Inr assms show ?thesis by (simp add: row_body_def)
    next
      case n: (Inr n)
      let ?t = "py_str (float_repr w) tv"
      obtain oc s1 where ap: "add_page ?t g = (oc, s1)" by (cases "add_page ?t g")
      with first [of ?t] have s1: "?P s1" by simp
      from inner [OF s1] s1 show ?thesis
        using Inr n ap by (simp add: row_body_def py_range_def)
    qed
  qed
qed

lemma add_page_agree:
  assumes "pdf g1 = pdf g2 \<and> line_spacing g1 = line_spacing g2 \<and> font_size g1 = font_size g2"
  shows "fst (add_page t g1) = fst (add_page t g2) \<and>
         (pdf (snd (add_page t g1)) = pdf (snd (add_page t g2)) \<and>
          line_spacing (snd (add_page t g1)) = line_spacing (snd (add_page t g2)) \<and>
          font_size (snd (add_page t g1)) = font_size (snd (add_page t g2)))"
proof (cases "line_spacing g1 = 0")
  case True
  with assms show ?thesis by (simp add: add_page_zero)
next
  case False
  with assms show ?thesis by (simp add: add_page_nonzero)
qed

lemma row_body_agree:
  assumes "float_repr w1 = float_repr w2"
    and "pdf g1 = pdf g2 \<and> line_spacing g1 = line_spacing g2 \<and> font_size g1 = font_size g2"
  shows "fst (row_body w1 r g1) = fst (row_body w2 r g2) \<and>
         (pdf (snd (row_body w1 r g1)) = pdf (snd (row_body w2 r g2)) \<and>
          line_spacing (snd (row_body w1 r g1)) = line_spacing (snd (row_body w2 r g2)) \<and>
          font_size (snd (row_body w1 r g1)) = font_size (snd (row_body w2 r g2)))"
proof -
  let ?R = "\<lambda>g1 g2. pdf g1 = pdf g2 \<and> line_spacing g1 = line_spacing g2 \<and> font_size g1 = font_size g2"
  have inner: "fst (for_each ks (\<lambda>k. add_page t) s1) = fst (for_each ks (\<lambda>k. add_page t) s2) \<and>
      ?R (snd (for_each ks (\<lambda>k. add_page t) s1)) (snd (for_each ks (\<lambda>k. add_page t) s2))"
    if "?R s1 s2" for ks :: "int list" and t s1 s2
  proof (rule for_each_rel [where R = ?R and ?s1.0 = s1 and ?s2.0 = s2])
    show "fst (add_page t s1') = fst (add_page t s2') \<and> ?R (snd (add_page t s1')) (snd (add_page t s2'))"
      if "?R s1' s2'" for x :: int and s1' s2'
      using that by (rule add_page_agree)
    show "?R s1 s2" by (fact that)
  qed
  have first: "fst (add_page t g1) = fst (add_page t g2) \<and> ?R (snd (add_page t g1)) (snd (add_page t g2))" for t
    using assms(2) by (rule add_page_agree)
  show ?thesis
  proof (cases "row_getitem r ''Topic''")
    case (Inl e)
    with assms show ?thesis by (simp add: row_body_def)
  next
    case (Inr tv)
    show ?thesis
    proof (cases "py_int (row_get r ''Pages'' (PInt 1))")
      case (Inl e)
      with Inr assms show ?thesis by (simp add: row_body_def)
    next
      case n: (Inr n)
      let ?t = "py_str (float_repr w2) tv"
      from first [of ?t] inner [OF conjunct2 [OF first [of ?t]]]
      show ?thesis
        using Inr n assms(1)
        by (cases "add_page ?t g1"; cases "add_page ?t g2")
           (simp add: row_body_def py_range_def)
    qed
  qed
qed

lemma nth_pages_rows:
  assumes "length ts = length ns" and "i < length ns"
    and "sum_list (map c (take i ns)) \<le> j" and "j < sum_list (map c (take (Suc i) ns))"
  shows "concat (map (\<lambda>(t, n). replicate (c n) (f t)) (zip ts ns)) ! j = f (ts ! i)"
  using assms
proof (induction ts ns arbitrary: i j rule: list_induct2)
  case Nil
  then show ?case by simp
next
  case (Cons t ts n ns)
  show ?case
  proof (cases i)
    case 0
    with Cons.prems show ?thesis by (simp add: nth_append)
  next
    case (Suc i')
    with Cons.prems have "i' < length ns" "sum_list (map c (take i' ns)) \<le> j - c n"
      "j - c n < sum_list (map c (take (Suc i') ns))" "c n \<le> j" by auto
    with Cons.IH [of i' "j - c n"] Suc show ?thesis by (simp add: nth_append)
  qed
qed

lemma cell_texts_page_body: "cell_texts (page_body fs step t) = [t, t]"
  by (simp add: cell_texts_def page_body_def List.map_filter_def filter_map comp_def)

lemma rule_lines_page_body:
  "rule_lines (page_body fs step t) =
     map (\<lambda>i. Line 10 (20 + int i * step) 200 (20 + int i * step)) [0..<range_length 20 298 step]"
  by (simp add: rule_lines_def page_body_def filter_map comp_def)

lemma ceiling_rule_count:
  assumes "0 < (s::int)"
  shows "\<lceil>(298 - 20) / real_of_int s\<rceil> = (298 - 20 - 1) div s + 1"
proof -
  let ?q = "277 div s"
  have split: "s * ?q + 277 mod s = 277" by (rule mult_div_mod_eq)
  have m: "0 \<le> 277 mod s" "277 mod s < s" using assms by simp_all
  have le: "s * ?q \<le> 277" using split m by linarith
  have "277 < s * ?q + s" using split m by linarith
  then have gt: "277 < s * (?q + 1)" by (simp add: algebra_simps)
  have "real_of_int ?q < 278 / real_of_int s"
  proof -
    have "real_of_int (s * ?q) < 278" using le by linarith
    then show ?thesis using assms by (simp add: pos_less_divide_eq mult.commute)
  qed
  moreover have "278 / real_of_int s \<le> real_of_int (?q + 1)"
  proof -
    have "278 \<le> real_of_int (s * (?q + 1))" using gt by linarith
    then show ?thesis using assms by (simp add: pos_divide_le_eq mult.commute)
  qed
  ultimately have "\<lceil>278 / real_of_int s\<rceil> = ?q + 1"
    by (intro ceiling_unique) simp_all
  then show ?thesis by simp
qed

lemma wf_rows_have_topic:
  assumes "wf_dataframe df" and "''Topic'' \<in> set (df_columns df)"
  shows "\<exists>ts. map (row_topic w) (df_rows df) = map Some ts"
proof -
  have "\<exists>t. row_topic w r = Some t" if "r \<in> set (df_rows df)" for r
  proof -
    from assms that have "''Topic'' \<in> fst ` set r"
      by (auto simp: wf_dataframe_def list_all_iff dest!: arg_cong [where f = set])
    then obtain v where "map_of r ''Topic'' = Some v"
      by (cases "map_of r ''Topic''") (auto simp: map_of_eq_None_iff)
    then show ?thesis by (simp add: row_topic_def row_getitem_def)
  qed
  then have "\<forall>r\<in>set (df_rows df). row_topic w r = Some (the (row_topic w r))" by auto
  then have "map (row_topic w) (df_rows df) = map Some (map (\<lambda>r. the (row_topic w r)) (df_rows df))"
    by simp
  then show ?thesis ..
qed

lemma wf_rows_pages_default_unused:
  assumes "wf_dataframe df" and "''Pages'' \<in> set (df_columns df)" and "r \<in> set (df_rows df)"
  shows "\<exists>v. map_of r ''Pages'' = Some v \<and> row_get r ''Pages'' d = v"
proof -
  from assms have "''Pages'' \<in> fst ` set r"
    by (auto simp: wf_dataframe_def list_all_iff dest!: arg_cong [where f = set])
  then obtain v where "map_of r ''Pages'' = Some v"
    by (cases "map_of r ''Pages''") (auto simp: map_of_eq_None_iff)
  then show ?thesis by (simp add: row_get_def)
qed

text \<open>
  \<open>int\<close> on text: blanks around the literal are skipped, a separator such as code point 28
  is not, so \<open>int\<close> raises on it.
\<close>

lemma py_int_text_examples:
  "py_int (PStr [CHR 0x20, CHR ''5'', CHR 0x0A]) = Inr 5"
  "py_int (PStr [CHR 0xA0, CHR ''-'', CHR ''1'', CHR ''_'', CHR ''2'']) = Inr (- 12)"
  "py_int (PStr [CHR 0x1C, CHR ''5'']) = Inl ValueError"
  "py_int (PStr [CHR ''5'', CHR 0x1F]) = Inl ValueError"
  by (simp_all add: int_of_str_def strip_def is_space_def int_literal_def is_digit_def
      digit_val_def int_max_str_digits_def Let_def)

section \<open>The claims\<close>

text \<open>
  C6. When the input path is not an existing file, the run ends in \<open>sys.exit(1)\<close> (a non-zero
  exit status) after printing one message that names the path; the disk is as it was and no
  page was added to the document.
\<close>

theorem missing_input_file_exits:
  assumes "\<not> isfile w (arg_csv a)"
  shows "fst (main w a p) = SysExit 1 \<and>
         exit_status (fst (main w a p)) \<noteq> 0 \<and>
         stdout (snd (snd (main w a p))) = stdout p @ [''Error: CSV file not found: '' @ arg_csv a] \<and>
         disk (snd (snd (main w a p))) = disk p \<and>
         pages_of (pdf (fst (snd (main w a p)))) = []"
  using assms
  by (simp add: main_def generate_def init_def print_def pages_of_def)

theorem missing_input_file_exits_witness:
  "\<not> isfile (example_world (Inr (table [(PStr ''Math'', PInt 2)])) None)
        (arg_csv (example_args ''absent.csv'' 10)) \<and>
   fst (main (example_world (Inr (table [(PStr ''Math'', PInt 2)])) None)
          (example_args ''absent.csv'' 10) fresh_process) = SysExit 1 \<and>
   stdout (snd (snd (main (example_world (Inr (table [(PStr ''Math'', PInt 2)])) None)
          (example_args ''absent.csv'' 10) fresh_process)))
     = [''Error: CSV file not found: absent.csv''] \<and>
   disk (snd (snd (main (example_world (Inr (table [(PStr ''Math'', PInt 2)])) None)
          (example_args ''absent.csv'' 10) fresh_process))) ''output.pdf'' = None"
proof -
  have h: "\<not> isfile (example_world (Inr (table [(PStr ''Math'', PInt 2)])) None)
        (arg_csv (example_args ''absent.csv'' 10))"
    by (simp add: example_world_def example_args_def)
  from missing_input_file_exits [OF h, of fresh_process] h show ?thesis
    by (simp add: example_args_def fresh_process_def)
qed

text \<open>
  C7. When the file parses but the table lacks the column \<open>Topic\<close> or the column \<open>Pages\<close>,
  the run ends in \<open>sys.exit(1)\<close> after printing one message; the document holds only the
  call made by the constructor (no page was added) and the disk is as it was.
\<close>

theorem missing_column_exits:
  assumes "isfile w (arg_csv a)" and "read_csv w (arg_csv a) = Inr df"
    and "''Topic'' \<notin> set (df_columns df) \<or> ''Pages'' \<notin> set (df_columns df)"
  shows "fst (main w a p) = SysExit 1 \<and>
         exit_status (fst (main w a p)) \<noteq> 0 \<and>
         stdout (snd (snd (main w a p))) =
           stdout p @ [''Error: CSV must contain columns: '' @ required_columns_repr w] \<and>
         disk (snd (snd (main w a p))) = disk p \<and>
         pdf (fst (snd (main w a p))) = [SetAutoPageBreak False 0] \<and>
         pages_of (pdf (fst (snd (main w a p)))) = []"
  using assms
  by (auto simp: main_def generate_def init_def print_def pages_of_def)

theorem missing_column_exits_witness:
  "isfile (example_world (Inr \<lparr>df_columns = [''Topic''], df_rows = [[(''Topic'', PStr ''Math'')]]\<rparr>) None)
      (arg_csv (example_args ''topics.csv'' 10)) \<and>
   read_csv (example_world (Inr \<lparr>df_columns = [''Topic''], df_rows = [[(''Topic'', PStr ''Math'')]]\<rparr>) None)
      (arg_csv (example_args ''topics.csv'' 10))
     = Inr \<lparr>df_columns = [''Topic''], df_rows = [[(''Topic'', PStr ''Math'')]]\<rparr> \<and>
   ''Pages'' \<notin> set (df_columns \<lparr>df_columns = [''Topic''], df_rows = [[(''Topic'', PStr ''Math'')]]\<rparr>) \<and>
   fst (main (example_world (Inr \<lparr>df_columns = [''Topic''], df_rows = [[(''Topic'', PStr ''Math'')]]\<rparr>) None)
          (example_args ''topics.csv'' 10) fresh_process) = SysExit 1 \<and>
   pages_of (pdf (fst (snd (main (example_world (Inr \<lparr>df_columns = [''Topic''], df_rows = [[(''Topic'', PStr ''Math'')]]\<rparr>) None)
          (example_args ''topics.csv'' 10) fresh_process)))) = [] \<and>
   disk (snd (snd (main (example_world (Inr \<lparr>df_columns = [''Topic''], df_rows = [[(''Topic'', PStr ''Math'')]]\<rparr>) None)
          (example_args ''topics.csv'' 10) fresh_process))) ''output.pdf'' = None"
proof -
  let ?df = "\<lparr>df_columns = [''Topic''], df_rows = [[(''Topic'', PStr ''Math'')]]\<rparr>"
  let ?w = "example_world (Inr ?df) None"
  let ?a = "example_args ''topics.csv'' 10"
  have h1: "isfile ?w (arg_csv ?a)" by (simp add: example_world_def example_args_def)
  have h2: "read_csv ?w (arg_csv ?a) = Inr ?df" by (simp add: example_world_def)
  have h3: "''Topic'' \<notin> set (df_columns ?df) \<or> ''Pages'' \<notin> set (df_columns ?df)" by simp
  from missing_column_exits [OF h1 h2 h3, of fresh_process] h1 h2 show ?thesis
    by (simp add: fresh_process_def pages_of_def)
qed

text \<open>
  C9. For a table with both columns and no rows, no page is added and the run goes on to the
  single write: when \<open>FPDF.output\<close> does not raise, the document (with no page) is on disk
  at the output path, the success message is printed and \<open>main\<close> returns (exit status 0);
  the only other ending is the exception of the write itself.
\<close>

theorem empty_table_writes_empty_document:
  assumes "isfile w (arg_csv a)" and "read_csv w (arg_csv a) = Inr df"
    and "{''Topic'', ''Pages''} \<subseteq> set (df_columns df)"
    and "df_rows df = []"
  shows "pages_of (pdf (fst (snd (main w a p)))) = [] \<and>
         (case output_raises w (arg_output a) of
            None \<Rightarrow>
              fst (main w a p) = Returned \<and>
              exit_status (fst (main w a p)) = 0 \<and>
              stdout (snd (snd (main w a p))) =
                stdout p @ [''PDF generated successfully: '' @ arg_output a] \<and>
              disk (snd (snd (main w a p))) =
                (disk p)(arg_output a \<mapsto> [SetAutoPageBreak False 0])
          | Some e \<Rightarrow> fst (main w a p) = Raised e)"
  using assms
  by (simp add: main_def generate_def init_def print_def pages_of_def split: option.splits)

theorem empty_table_writes_empty_document_witness:
  "isfile (example_world (Inr (table [])) None) (arg_csv (example_args ''topics.csv'' 10)) \<and>
   read_csv (example_world (Inr (table [])) None) (arg_csv (example_args ''topics.csv'' 10))
     = Inr (table []) \<and>
   {''Topic'', ''Pages''} \<subseteq> set (df_columns (table [])) \<and>
   df_rows (table []) = [] \<and>
   pages_of (pdf (fst (snd (main (example_world (Inr (table [])) None)
      (example_args ''topics.csv'' 10) fresh_process)))) = [] \<and>
   fst (main (example_world (Inr (table [])) None)
      (example_args ''topics.csv'' 10) fresh_process) = Returned \<and>
   stdout (snd (snd (main (example_world (Inr (table [])) None)
      (example_args ''topics.csv'' 10) fresh_process)))
     = [''PDF generated successfully: output.pdf''] \<and>
   disk (snd (snd (main (example_world (Inr (table [])) None)
      (example_args ''topics.csv'' 10) fresh_process))) ''output.pdf''
     = Some [SetAutoPageBreak False 0]"
proof -
  let ?w = "example_world (Inr (table [])) None"
  let ?a = "example_args ''topics.csv'' 10"
  have h1: "isfile ?w (arg_csv ?a)" by (simp add: example_world_def example_args_def)
  have h2: "read_csv ?w (arg_csv ?a) = Inr (table [])" by (simp add: example_world_def)
  have h3: "{''Topic'', ''Pages''} \<subseteq> set (df_columns (table []))" by (simp add: table_def)
  have h4: "df_rows (table []) = []" by (simp add: table_def)
  have w: "output_raises ?w ''output.pdf'' = None" by (simp add: example_world_def)
  from empty_table_writes_empty_document [OF h1 h2 h3 h4, of fresh_process] h1 h2 h3 h4
  show ?thesis
    by (simp add: w fresh_process_def example_args_def)
qed

text \<open>
  C1 (as amended). For a file that exists and parses to a table with both columns, whose
  rows have topics \<open>ts\<close> and page counts \<open>ns\<close> that \<open>int\<close> accepts, and a line spacing other
  than 0: a row with topic \<open>t\<close> and count \<open>n\<close> adds exactly \<open>max n 1\<close> pages, each the page of
  \<open>t\<close> (so exactly one page when \<open>n \<le> 0\<close>); the pages the program emits are these, row after
  row, and their number is the sum of \<open>max n 1\<close> over the rows; the run returns when the
  write does not raise, and for a table with at least one row the document written is the
  one that holds these pages. With a line spacing of 0 the claim fails: the run below the
  witness, on the one row Math/2, raises \<open>ValueError\<close> inside the first \<open>add_page\<close>, with one
  page started instead of two and nothing written.
\<close>

theorem pages_per_row_and_total:
  assumes "isfile w (arg_csv a)" and "read_csv w (arg_csv a) = Inr df"
    and "{''Topic'', ''Pages''} \<subseteq> set (df_columns df)"
    and "map (row_topic w) (df_rows df) = map Some ts"
    and "map row_pages (df_rows df) = map Some ns"
    and "arg_lines a \<noteq> 0"
  shows "(\<forall>r g t n. row_topic w r = Some t \<and> row_pages r = Some n \<and> line_spacing g \<noteq> 0 \<longrightarrow>
            fst (row_body w r g) = Returned \<and>
            pages_of (pdf (snd (row_body w r g))) =
              pages_of (pdf g) @
              replicate (nat (max n 1)) (page_body (font_size g) (line_spacing g) t)) \<and>
         pages_of (pdf (fst (snd (main w a p)))) =
           concat (map (\<lambda>(t, n). replicate (nat (max n 1))
             (page_body (arg_fontsize a) (arg_lines a) t)) (zip ts ns)) \<and>
         int (length (pages_of (pdf (fst (snd (main w a p)))))) =
           sum_list (map (\<lambda>n. max n 1) ns) \<and>
         (output_raises w (arg_output a) = None \<longrightarrow> fst (main w a p) = Returned) \<and>
         (ns \<noteq> [] \<and> output_raises w (arg_output a) = None \<longrightarrow>
            disk (snd (snd (main w a p))) (arg_output a) = Some (pdf (fst (snd (main w a p)))))"
proof -
  have len: "length ts = length ns"
    using assms(4,5) by (metis length_map)
  note pages = main_valid_pages(1) [OF assms, of p]
  have "int (length (pages_of (pdf (fst (snd (main w a p)))))) = sum_list (map (\<lambda>n. max n 1) ns)"
    unfolding pages using len by (rule length_pages_rows)
  with pages main_valid_pages(2) [OF assms, of p] row_body_pages show ?thesis
    by blast
qed

theorem pages_per_row_and_total_witness:
  "isfile (example_world (Inr (table [(PStr ''Math'', PInt 2), (PStr ''Art'', PInt 0),
             (PStr ''Law'', PInt (- 3))])) None) (arg_csv (example_args ''topics.csv'' 50)) \<and>
   read_csv (example_world (Inr (table [(PStr ''Math'', PInt 2), (PStr ''Art'', PInt 0),
             (PStr ''Law'', PInt (- 3))])) None) (arg_csv (example_args ''topics.csv'' 50))
     = Inr (table [(PStr ''Math'', PInt 2), (PStr ''Art'', PInt 0), (PStr ''Law'', PInt (- 3))]) \<and>
   {''Topic'', ''Pages''} \<subseteq> set (df_columns (table [(PStr ''Math'', PInt 2), (PStr ''Art'', PInt 0),
             (PStr ''Law'', PInt (- 3))])) \<and>
   map (row_topic (example_world (Inr (table [(PStr ''Math'', PInt 2), (PStr ''Art'', PInt 0),
             (PStr ''Law'', PInt (- 3))])) None))
     (df_rows (table [(PStr ''Math'', PInt 2), (PStr ''Art'', PInt 0), (PStr ''Law'', PInt (- 3))]))
     = map Some [''Math'', ''Art'', ''Law''] \<and>
   map row_pages
     (df_rows (table [(PStr ''Math'', PInt 2), (PStr ''Art'', PInt 0), (PStr ''Law'', PInt (- 3))]))
     = map Some [2, 0, - 3] \<and>
   arg_lines (example_args ''topics.csv'' 50) \<noteq> 0 \<and>
   pages_of (pdf (fst (snd (main (example_world (Inr (table [(PStr ''Math'', PInt 2),
       (PStr ''Art'', PInt 0), (PStr ''Law'', PInt (- 3))])) None)
       (example_args ''topics.csv'' 50) fresh_process))))
     = [page_body 24 50 ''Math'', page_body 24 50 ''Math'', page_body 24 50 ''Art'',
        page_body 24 50 ''Law''] \<and>
   length (pages_of (pdf (fst (snd (main (example_world (Inr (table [(PStr ''Math'', PInt 2),
       (PStr ''Art'', PInt 0), (PStr ''Law'', PInt (- 3))])) None)
       (example_args ''topics.csv'' 50) fresh_process))))) = 4 \<and>
   fst (main (example_world (Inr (table [(PStr ''Math'', PInt 2),
       (PStr ''Art'', PInt 0), (PStr ''Law'', PInt (- 3))])) None)
       (example_args ''topics.csv'' 50) fresh_process) = Returned"
proof -
  let ?df = "table [(PStr ''Math'', PInt 2), (PStr ''Art'', PInt 0), (PStr ''Law'', PInt (- 3))]"
  let ?w = "example_world (Inr ?df) None"
  let ?a = "example_args ''topics.csv'' 50"
  have h1: "isfile ?w (arg_csv ?a)" by (simp add: example_world_def example_args_def)
  have h2: "read_csv ?w (arg_csv ?a) = Inr ?df" by (simp add: example_world_def)
  have h3: "{''Topic'', ''Pages''} \<subseteq> set (df_columns ?df)" by (simp add: table_def)
  have h4: "map (row_topic ?w) (df_rows ?df) = map Some [''Math'', ''Art'', ''Law'']"
    by (simp add: table_def row_topic_def row_getitem_def)
  have h5: "map row_pages (df_rows ?df) = map Some [2, 0, - 3]"
    by (simp add: table_def row_pages_def row_get_def)
  have h6: "arg_lines ?a \<noteq> 0" by (simp add: example_args_def)
  have w: "output_raises ?w (arg_output ?a) = None" by (simp add: example_world_def)
  from pages_per_row_and_total [OF h1 h2 h3 h4 h5 h6, of fresh_process] w
  have "pages_of (pdf (fst (snd (main ?w ?a fresh_process)))) =
          concat (map (\<lambda>(t, n). replicate (nat (max n 1))
             (page_body (arg_fontsize ?a) (arg_lines ?a) t))
               (zip [''Math'', ''Art'', ''Law''] [2, 0, - 3]))"
    and "int (length (pages_of (pdf (fst (snd (main ?w ?a fresh_process)))))) =
           sum_list (map (\<lambda>n. max n 1) [2, 0, - 3])"
    and "fst (main ?w ?a fresh_process) = Returned"
    by blast+
  then have "pages_of (pdf (fst (snd (main ?w ?a fresh_process)))) =
       [page_body 24 50 ''Math'', page_body 24 50 ''Math'', page_body 24 50 ''Art'',
        page_body 24 50 ''Law'']"
    and "length (pages_of (pdf (fst (snd (main ?w ?a fresh_process))))) = 4"
    and "fst (main ?w ?a fresh_process) = Returned"
    by (simp_all add: example_args_def numeral_2_eq_2)
  with h1 h2 h3 h4 h5 h6 show ?thesis by blast
qed

theorem pages_per_row_and_total_counterexample:
  "isfile (example_world (Inr (table [(PStr ''Math'', PInt 2)])) None)
      (arg_csv (example_args ''topics.csv'' 0)) \<and>
   read_csv (example_world (Inr (table [(PStr ''Math'', PInt 2)])) None)
      (arg_csv (example_args ''topics.csv'' 0)) = Inr (table [(PStr ''Math'', PInt 2)]) \<and>
   {''Topic'', ''Pages''} \<subseteq> set (df_columns (table [(PStr ''Math'', PInt 2)])) \<and>
   map (row_topic (example_world (Inr (table [(PStr ''Math'', PInt 2)])) None))
      (df_rows (table [(PStr ''Math'', PInt 2)])) = [Some ''Math''] \<and>
   map row_pages (df_rows (table [(PStr ''Math'', PInt 2)])) = [Some 2] \<and>
   fst (main (example_world (Inr (table [(PStr ''Math'', PInt 2)])) None)
      (example_args ''topics.csv'' 0) fresh_process) = Raised ValueError \<and>
   length (pages_of (pdf (fst (snd (main (example_world (Inr (table [(PStr ''Math'', PInt 2)])) None)
      (example_args ''topics.csv'' 0) fresh_process))))) = 1 \<and>
   max 2 1 = (2 :: int) \<and>
   disk (snd (snd (main (example_world (Inr (table [(PStr ''Math'', PInt 2)])) None)
      (example_args ''topics.csv'' 0) fresh_process))) ''output.pdf'' = None"
proof -
  have run: "main (example_world (Inr (table [(PStr ''Math'', PInt 2)])) None)
      (example_args ''topics.csv'' 0) fresh_process =
    (Raised ValueError,
     (init ''topics.csv'' ''output.pdf'' 0 24)\<lparr>pdf :=
        [SetAutoPageBreak False 0, AddPage, SetFont ''Arial'' ''B'' 24,
         SetTextColor 100 100 100, Cell 0 12 ''Math'' ''L'' 1]\<rparr>,
     fresh_process)"
    by (simp add: main_def generate_def example_world_def example_args_def
        table_def init_def row_body_def row_getitem_def row_get_def add_page_def py_range_def
        call_def Let_def)
  show ?thesis
    unfolding run
    by (simp add: example_world_def example_args_def table_def row_topic_def row_getitem_def
        row_pages_def row_get_def pages_of_def fresh_process_def)
qed

text \<open>
  C5 (as amended). Pages follow the rows in order. For a file that exists and parses to a
  table with both columns, whose rows have topics \<open>ts\<close> and page counts \<open>ns\<close> that \<open>int\<close>
  accepts, and a line spacing other than 0, let row \<open>i\<close> be the row at which the running
  total of \<open>max n 1\<close> first reaches \<open>N\<close> (the total before row \<open>i\<close> is below \<open>N\<close>, the total with
  row \<open>i\<close> is at least \<open>N\<close>). Then the document has a page \<open>N\<close>, it is the page of the topic
  of row \<open>i\<close>, and its header and its footer both show that topic. The instance below it is
  the table Math/2, History/1: three pages, Math, Math, History. With a line spacing of 0
  the claim fails: on the same table the run raises \<open>ValueError\<close> with a single page started,
  which has the header Math and no footer.
\<close>

theorem page_order_follows_rows:
  assumes "isfile w (arg_csv a)" and "read_csv w (arg_csv a) = Inr df"
    and "{''Topic'', ''Pages''} \<subseteq> set (df_columns df)"
    and "map (row_topic w) (df_rows df) = map Some ts"
    and "map row_pages (df_rows df) = map Some ns"
    and "arg_lines a \<noteq> 0"
    and "i < length ns"
    and "sum_list (map (\<lambda>n. nat (max n 1)) (take i ns)) < N"
    and "N \<le> sum_list (map (\<lambda>n. nat (max n 1)) (take (Suc i) ns))"
  shows "N \<le> length (pages_of (pdf (fst (snd (main w a p))))) \<and>
         pages_of (pdf (fst (snd (main w a p)))) ! (N - 1) =
           page_body (arg_fontsize a) (arg_lines a) (ts ! i) \<and>
         cell_texts (pages_of (pdf (fst (snd (main w a p)))) ! (N - 1)) = [ts ! i, ts ! i]"
proof -
  have len: "length ts = length ns"
    using assms(4,5) by (metis length_map)
  note pages = main_valid_pages(1) [OF assms(1-6), of p]
  have lo: "sum_list (map (\<lambda>n. nat (max n 1)) (take i ns)) \<le> N - 1"
    and hi: "N - 1 < sum_list (map (\<lambda>n. nat (max n 1)) (take (Suc i) ns))"
    using assms(8,9) by simp_all
  have nth: "pages_of (pdf (fst (snd (main w a p)))) ! (N - 1) =
      page_body (arg_fontsize a) (arg_lines a) (ts ! i)"
    unfolding pages using len assms(7) lo hi by (rule nth_pages_rows)
  have "int (length (pages_of (pdf (fst (snd (main w a p)))))) = sum_list (map (\<lambda>n. max n 1) ns)"
    unfolding pages using len by (rule length_pages_rows)
  also have "\<dots> = int (sum_list (map (\<lambda>n. nat (max n 1)) ns))"
    by (induction ns) (auto simp: max_def)
  finally have total: "length (pages_of (pdf (fst (snd (main w a p))))) =
      sum_list (map (\<lambda>n. nat (max n 1)) ns)" by simp
  have "sum_list (map (\<lambda>n. nat (max n 1)) (take (Suc i) ns)) \<le> sum_list (map (\<lambda>n. nat (max n 1)) ns)"
  proof -
    have "sum_list (map (\<lambda>n. nat (max n 1)) ns) =
        sum_list (map (\<lambda>n. nat (max n 1)) (take (Suc i) ns)) +
        sum_list (map (\<lambda>n. nat (max n 1)) (drop (Suc i) ns))"
      by (metis append_take_drop_id map_append sum_list_append)
    then show ?thesis by simp
  qed
  with assms(9) total have "N \<le> length (pages_of (pdf (fst (snd (main w a p)))))" by simp
  with nth show ?thesis by (simp add: cell_texts_page_body)
qed

theorem page_order_follows_rows_witness:
  "isfile (example_world (Inr (table [(PStr ''Math'', PInt 2), (PStr ''History'', PInt 1)])) None)
      (arg_csv (example_args ''topics.csv'' 10)) \<and>
   read_csv (example_world (Inr (table [(PStr ''Math'', PInt 2), (PStr ''History'', PInt 1)])) None)
      (arg_csv (example_args ''topics.csv'' 10))
     = Inr (table [(PStr ''Math'', PInt 2), (PStr ''History'', PInt 1)]) \<and>
   {''Topic'', ''Pages''} \<subseteq>
      set (df_columns (table [(PStr ''Math'', PInt 2), (PStr ''History'', PInt 1)])) \<and>
   map (row_topic (example_world (Inr (table [(PStr ''Math'', PInt 2), (PStr ''History'', PInt 1)])) None))
      (df_rows (table [(PStr ''Math'', PInt 2), (PStr ''History'', PInt 1)]))
     = map Some [''Math'', ''History''] \<and>
   map row_pages (df_rows (table [(PStr ''Math'', PInt 2), (PStr ''History'', PInt 1)]))
     = map Some [2, 1] \<and>
   arg_lines (example_args ''topics.csv'' 10) \<noteq> 0 \<and>
   length (pages_of (pdf (fst (snd (main
      (example_world (Inr (table [(PStr ''Math'', PInt 2), (PStr ''History'', PInt 1)])) None)
      (example_args ''topics.csv'' 10) fresh_process))))) = 3 \<and>
   cell_texts (pages_of (pdf (fst (snd (main
      (example_world (Inr (table [(PStr ''Math'', PInt 2), (PStr ''History'', PInt 1)])) None)
      (example_args ''topics.csv'' 10) fresh_process)))) ! 0) = [''Math'', ''Math''] \<and>
   cell_texts (pages_of (pdf (fst (snd (main
      (example_world (Inr (table [(PStr ''Math'', PInt 2), (PStr ''History'', PInt 1)])) None)
      (example_args ''topics.csv'' 10) fresh_process)))) ! 1) = [''Math'', ''Math''] \<and>
   cell_texts (pages_of (pdf (fst (snd (main
      (example_world (Inr (table [(PStr ''Math'', PInt 2), (PStr ''History'', PInt 1)])) None)
      (example_args ''topics.csv'' 10) fresh_process)))) ! 2) = [''History'', ''History'']"
proof -
  let ?df = "table [(PStr ''Math'', PInt 2), (PStr ''History'', PInt 1)]"
  let ?w = "example_world (Inr ?df) None"
  let ?a = "example_args ''topics.csv'' 10"
  let ?pages = "pages_of (pdf (fst (snd (main ?w ?a fresh_process))))"
  have h1: "isfile ?w (arg_csv ?a)" by (simp add: example_world_def example_args_def)
  have h2: "read_csv ?w (arg_csv ?a) = Inr ?df" by (simp add: example_world_def)
  have h3: "{''Topic'', ''Pages''} \<subseteq> set (df_columns ?df)" by (simp add: table_def)
  have h4: "map (row_topic ?w) (df_rows ?df) = map Some [''Math'', ''History'']"
    by (simp add: table_def row_topic_def row_getitem_def)
  have h5: "map row_pages (df_rows ?df) = map Some [2, 1]"
    by (simp add: table_def row_pages_def row_get_def)
  have h6: "arg_lines ?a \<noteq> 0" by (simp add: example_args_def)
  note inst = page_order_follows_rows [OF h1 h2 h3 h4 h5 h6, of _ _ fresh_process]
  have p1: "cell_texts (?pages ! 0) = [''Math'', ''Math'']"
    using inst [of 0 1] by (simp add: cell_texts_page_body)
  have p2: "cell_texts (?pages ! 1) = [''Math'', ''Math'']"
    using inst [of 0 2] by (simp add: cell_texts_page_body)
  have p3: "cell_texts (?pages ! 2) = [''History'', ''History'']" and ge: "3 \<le> length ?pages"
    using inst [of 1 3] by (simp_all add: cell_texts_page_body)
  have le: "length ?pages = 3"
    by (simp add: main_valid_pages(1) [OF h1 h2 h3 h4 h5 h6] numeral_2_eq_2)
  from h1 h2 h3 h4 h5 h6 le p1 p2 p3 show ?thesis by blast
qed

theorem page_order_follows_rows_counterexample:
  "isfile (example_world (Inr (table [(PStr ''Math'', PInt 2), (PStr ''History'', PInt 1)])) None)
      (arg_csv (example_args ''topics.csv'' 0)) \<and>
   read_csv (example_world (Inr (table [(PStr ''Math'', PInt 2), (PStr ''History'', PInt 1)])) None)
      (arg_csv (example_args ''topics.csv'' 0))
     = Inr (table [(PStr ''Math'', PInt 2), (PStr ''History'', PInt 1)]) \<and>
   {''Topic'', ''Pages''} \<subseteq>
      set (df_columns (table [(PStr ''Math'', PInt 2), (PStr ''History'', PInt 1)])) \<and>
   map row_pages (df_rows (table [(PStr ''Math'', PInt 2), (PStr ''History'', PInt 1)]))
     = [Some 2, Some 1] \<and>
   fst (main (example_world (Inr (table [(PStr ''Math'', PInt 2), (PStr ''History'', PInt 1)])) None)
      (example_args ''topics.csv'' 0) fresh_process) = Raised ValueError \<and>
   map cell_texts (pages_of (pdf (fst (snd (main
      (example_world (Inr (table [(PStr ''Math'', PInt 2), (PStr ''History'', PInt 1)])) None)
      (example_args ''topics.csv'' 0) fresh_process))))) = [[''Math'']]"
proof -
  have run: "main (example_world (Inr (table [(PStr ''Math'', PInt 2), (PStr ''History'', PInt 1)])) None)
      (example_args ''topics.csv'' 0) fresh_process =
    (Raised ValueError,
     (init ''topics.csv'' ''output.pdf'' 0 24)\<lparr>pdf :=
        [SetAutoPageBreak False 0, AddPage, SetFont ''Arial'' ''B'' 24,
         SetTextColor 100 100 100, Cell 0 12 ''Math'' ''L'' 1]\<rparr>,
     fresh_process)"
    by (simp add: main_def generate_def example_world_def example_args_def
        table_def init_def row_body_def row_getitem_def row_get_def add_page_def py_range_def
        call_def Let_def)
  show ?thesis
    unfolding run
    by (simp add: example_world_def example_args_def table_def row_pages_def row_get_def
        pages_of_def cell_texts_def List.map_filter_def)
qed

text \<open>
  C4 (as amended). For a positive line spacing \<open>s\<close>, \<open>add_page\<close> returns and adds one page, on
  which it draws the rule lines at the offsets \<open>20, 20 + s, 20 + 2 s, \<dots>\<close> below 298: their
  number is the ceiling of \<open>(298 - 20) / s\<close>, that is \<open>(298 - 20 - 1) div s + 1\<close>, and not the
  floor. With \<open>s = 50\<close> the page has the 6 lines at 20, 70, 120, 170, 220 and 270, while the
  floor of \<open>278 / 50\<close> is 5.
\<close>

theorem rule_lines_per_page:
  assumes "0 < line_spacing self"
  shows "fst (add_page topic self) = Returned \<and>
         pages_of (pdf (snd (add_page topic self))) =
           pages_of (pdf self) @ [page_body (font_size self) (line_spacing self) topic] \<and>
         rule_lines (page_body (font_size self) (line_spacing self) topic) =
           map (\<lambda>i. Line 10 (20 + int i * line_spacing self) 200 (20 + int i * line_spacing self))
             [0..<nat \<lceil>(298 - 20) / real_of_int (line_spacing self)\<rceil>] \<and>
         int (length (rule_lines (page_body (font_size self) (line_spacing self) topic))) =
           \<lceil>(298 - 20) / real_of_int (line_spacing self)\<rceil> \<and>
         int (length (rule_lines (page_body (font_size self) (line_spacing self) topic))) =
           (298 - 20 - 1) div line_spacing self + 1"
proof -
  have nz: "line_spacing self \<noteq> 0" using assms by simp
  have body: "list_all (\<lambda>b. AddPage \<notin> set b) [page_body (font_size self) (line_spacing self) topic]"
    by (simp add: page_body_no_add_page)
  have pages: "pages_of (pdf (snd (add_page topic self))) =
           pages_of (pdf self) @ [page_body (font_size self) (line_spacing self) topic]"
    using pages_of_append [OF body, of "pdf self"] by (simp add: add_page_nonzero [OF nz])
  have count: "range_length 20 298 (line_spacing self) = nat ((298 - 20 - 1) div line_spacing self + 1)"
    using assms by (simp add: range_length_def)
  have pos: "0 \<le> (298 - 20 - 1) div line_spacing self + 1"
    using assms by (simp add: pos_imp_zdiv_nonneg_iff)
  have ceil: "\<lceil>278 / real_of_int (line_spacing self)\<rceil> = 277 div line_spacing self + 1"
    using ceiling_rule_count [OF assms] by simp
  show ?thesis
    using pages pos
    by (simp add: add_page_nonzero [OF nz] rule_lines_page_body count ceil)
qed

theorem rule_lines_per_page_witness:
  "0 < line_spacing (init ''topics.csv'' ''output.pdf'' 50 24) \<and>
   fst (add_page ''Math'' (init ''topics.csv'' ''output.pdf'' 50 24)) = Returned \<and>
   pages_of (pdf (snd (add_page ''Math'' (init ''topics.csv'' ''output.pdf'' 50 24)))) =
     [page_body 24 50 ''Math''] \<and>
   rule_lines (page_body 24 50 ''Math'') =
     [Line 10 20 200 20, Line 10 70 200 70, Line 10 120 200 120, Line 10 170 200 170,
      Line 10 220 200 220, Line 10 270 200 270] \<and>
   length (rule_lines (page_body 24 50 ''Math'')) = 6"
proof -
  have h: "0 < line_spacing (init ''topics.csv'' ''output.pdf'' 50 24)" by (simp add: init_def)
  have f: "font_size (init ''topics.csv'' ''output.pdf'' 50 24) = 24"
    "line_spacing (init ''topics.csv'' ''output.pdf'' 50 24) = 50"
    "pages_of (pdf (init ''topics.csv'' ''output.pdf'' 50 24)) = []"
    by (simp_all add: init_def pages_of_def)
  from rule_lines_per_page [OF h, of "''Math''"]
  have "fst (add_page ''Math'' (init ''topics.csv'' ''output.pdf'' 50 24)) = Returned"
    and "pages_of (pdf (snd (add_page ''Math'' (init ''topics.csv'' ''output.pdf'' 50 24)))) =
     [page_body 24 50 ''Math'']"
    and "int (length (rule_lines (page_body 24 50 ''Math''))) = (298 - 20 - 1) div 50 + 1"
    by (simp_all add: f)
  moreover have "rule_lines (page_body 24 50 ''Math'') =
     [Line 10 20 200 20, Line 10 70 200 70, Line 10 120 200 120, Line 10 170 200 170,
      Line 10 220 200 220, Line 10 270 200 270]"
    by (simp add: rule_lines_def page_body_def range_length_def upt_rec)
  ultimately show ?thesis using h by simp
qed

theorem rule_lines_per_page_counterexample:
  "length (rule_lines (last (pages_of (pdf (snd (add_page ''Math''
      (init ''topics.csv'' ''output.pdf'' 50 24))))))) = 6 \<and>
   \<lfloor>(298 - 20) / (50 :: real)\<rfloor> = 5"
proof -
  have "py_range 20 298 50 = Inr [20, 70, 120, 170, 220, 270]"
    by (simp add: py_range_def range_length_def upt_rec)
  then have "pdf (snd (add_page ''Math'' (init ''topics.csv'' ''output.pdf'' 50 24))) =
    [SetAutoPageBreak False 0, AddPage, SetFont ''Arial'' ''B'' 24, SetTextColor 100 100 100,
     Cell 0 12 ''Math'' ''L'' 1,
     Line 10 20 200 20, Line 10 70 200 70, Line 10 120 200 120, Line 10 170 200 170,
     Line 10 220 200 220, Line 10 270 200 270,
     Ln 265, SetFont ''Arial'' ''I'' 8, SetTextColor 180 180 180, Cell 0 10 ''Math'' ''R'' 0]"
    by (simp add: add_page_def init_def call_def)
  then have "length (rule_lines (last (pages_of (pdf (snd (add_page ''Math''
      (init ''topics.csv'' ''output.pdf'' 50 24))))))) = 6"
    by (simp add: pages_of_def rule_lines_def)
  moreover have "\<lfloor>(298 - 20) / (50 :: real)\<rfloor> = 5"
    by (simp add: floor_unique)
  ultimately show ?thesis by simp
qed

text \<open>
  C3 (as amended). The program has no check of the line spacing. With a line spacing
  \<open>\<le> 0\<close> no rule line is ever drawn, whatever the world and the table; a negative spacing
  makes every \<open>add_page\<close> return after drawing the header and the footer only, and a spacing
  of 0 makes every \<open>add_page\<close> raise \<open>ValueError\<close> after the page has been started and its
  header drawn. The run below it, with spacing \<open>-1\<close>, emits a page, writes the document and
  reports success.
\<close>

theorem nonpositive_spacing_draws_no_rule_line:
  assumes "arg_lines a \<le> 0"
  shows "rule_lines (pdf (fst (snd (main w a p)))) = [] \<and>
         (\<forall>topic g. line_spacing g = arg_lines a \<longrightarrow>
            add_page topic g =
              (if arg_lines a = 0
               then (Raised ValueError,
                     g\<lparr>pdf := pdf g @
                       [AddPage, SetFont ''Arial'' ''B'' (font_size g), SetTextColor 100 100 100,
                        Cell 0 12 topic ''L'' 1]\<rparr>)
               else (Returned,
                     g\<lparr>pdf := pdf g @
                       [AddPage, SetFont ''Arial'' ''B'' (font_size g), SetTextColor 100 100 100,
                        Cell 0 12 topic ''L'' 1, Ln 265, SetFont ''Arial'' ''I'' 8,
                        SetTextColor 180 180 180, Cell 0 10 topic ''R'' 0]\<rparr>)))"
proof -
  let ?P = "\<lambda>g. line_spacing g \<le> 0 \<and> rule_lines (pdf g) = []"
  let ?g = "init (arg_csv a) (arg_output a) (arg_lines a) (arg_fontsize a)"
  have start: "?P ?g" using assms by (simp add: init_def rule_lines_def)
  have loop: "?P (snd (for_each rs (row_body w) ?g))" for rs
  proof (rule for_each_invariant [where P = ?P])
    show "?P (snd (row_body w r s))" if "?P s" for r s
      using that by (rule row_body_keeps_no_lines)
    show "?P ?g" by (fact start)
  qed
  have "rule_lines (pdf (fst (snd (main w a p)))) = []"
    using start loop by (simp add: main_def generate_pdf split: sum.splits)
  moreover have "add_page topic g =
              (if arg_lines a = 0
               then (Raised ValueError,
                     g\<lparr>pdf := pdf g @
                       [AddPage, SetFont ''Arial'' ''B'' (font_size g), SetTextColor 100 100 100,
                        Cell 0 12 topic ''L'' 1]\<rparr>)
               else (Returned,
                     g\<lparr>pdf := pdf g @
                       [AddPage, SetFont ''Arial'' ''B'' (font_size g), SetTextColor 100 100 100,
                        Cell 0 12 topic ''L'' 1, Ln 265, SetFont ''Arial'' ''I'' 8,
                        SetTextColor 180 180 180, Cell 0 10 topic ''R'' 0]\<rparr>))"
    if "line_spacing g = arg_lines a" for topic g
  proof (cases "arg_lines a = 0")
    case True
    with that show ?thesis by (simp add: add_page_zero)
  next
    case False
    with that assms have "line_spacing g < 0" by simp
    with False show ?thesis by (simp add: add_page_negative)
  qed
  ultimately show ?thesis by blast
qed

theorem nonpositive_spacing_draws_no_rule_line_witness:
  "arg_lines (example_args ''topics.csv'' 0) \<le> 0 \<and>
   rule_lines (pdf (fst (snd (main (example_world (Inr (table [(PStr ''Math'', PInt 2)])) None)
      (example_args ''topics.csv'' 0) fresh_process)))) = [] \<and>
   add_page ''Math'' (init ''topics.csv'' ''output.pdf'' 0 24) =
     (Raised ValueError,
      (init ''topics.csv'' ''output.pdf'' 0 24)\<lparr>pdf :=
         [SetAutoPageBreak False 0, AddPage, SetFont ''Arial'' ''B'' 24,
          SetTextColor 100 100 100, Cell 0 12 ''Math'' ''L'' 1]\<rparr>)"
proof -
  have h: "arg_lines (example_args ''topics.csv'' 0) \<le> 0" by (simp add: example_args_def)
  have g: "line_spacing (init ''topics.csv'' ''output.pdf'' 0 24) = arg_lines (example_args ''topics.csv'' 0)"
    by (simp add: init_def example_args_def)
  from nonpositive_spacing_draws_no_rule_line [OF h,
      of "example_world (Inr (table [(PStr ''Math'', PInt 2)])) None" fresh_process]
  have "rule_lines (pdf (fst (snd (main (example_world (Inr (table [(PStr ''Math'', PInt 2)])) None)
      (example_args ''topics.csv'' 0) fresh_process)))) = []"
    and "add_page ''Math'' (init ''topics.csv'' ''output.pdf'' 0 24) =
     (Raised ValueError,
      (init ''topics.csv'' ''output.pdf'' 0 24)\<lparr>pdf :=
         pdf (init ''topics.csv'' ''output.pdf'' 0 24) @ [AddPage,
          SetFont ''Arial'' ''B'' (font_size (init ''topics.csv'' ''output.pdf'' 0 24)),
          SetTextColor 100 100 100, Cell 0 12 ''Math'' ''L'' 1]\<rparr>)"
    using g by (simp_all add: example_args_def)
  then show ?thesis using h by (simp add: init_def)
qed

theorem nonpositive_spacing_draws_no_rule_line_counterexample:
  "arg_lines (example_args ''topics.csv'' (- 1)) \<le> 0 \<and>
   fst (main (example_world (Inr (table [(PStr ''Math'', PInt 1)])) None)
      (example_args ''topics.csv'' (- 1)) fresh_process) = Returned \<and>
   pages_of (pdf (fst (snd (main (example_world (Inr (table [(PStr ''Math'', PInt 1)])) None)
      (example_args ''topics.csv'' (- 1)) fresh_process)))) =
     [[SetFont ''Arial'' ''B'' 24, SetTextColor 100 100 100, Cell 0 12 ''Math'' ''L'' 1,
       Ln 265, SetFont ''Arial'' ''I'' 8, SetTextColor 180 180 180, Cell 0 10 ''Math'' ''R'' 0]] \<and>
   stdout (snd (snd (main (example_world (Inr (table [(PStr ''Math'', PInt 1)])) None)
      (example_args ''topics.csv'' (- 1)) fresh_process))) =
     [''PDF generated successfully: output.pdf''] \<and>
   disk (snd (snd (main (example_world (Inr (table [(PStr ''Math'', PInt 1)])) None)
      (example_args ''topics.csv'' (- 1)) fresh_process))) ''output.pdf'' =
     Some [SetAutoPageBreak False 0, AddPage,
       SetFont ''Arial'' ''B'' 24, SetTextColor 100 100 100, Cell 0 12 ''Math'' ''L'' 1,
       Ln 265, SetFont ''Arial'' ''I'' 8, SetTextColor 180 180 180, Cell 0 10 ''Math'' ''R'' 0]"
proof -
  have run: "main (example_world (Inr (table [(PStr ''Math'', PInt 1)])) None)
      (example_args ''topics.csv'' (- 1)) fresh_process =
    (Returned,
     (init ''topics.csv'' ''output.pdf'' (- 1) 24)\<lparr>pdf :=
       [SetAutoPageBreak False 0, AddPage,
        SetFont ''Arial'' ''B'' 24, SetTextColor 100 100 100, Cell 0 12 ''Math'' ''L'' 1,
        Ln 265, SetFont ''Arial'' ''I'' 8, SetTextColor 180 180 180, Cell 0 10 ''Math'' ''R'' 0]\<rparr>,
     \<lparr>stdout = [''PDF generated successfully: output.pdf''],
      disk = [''output.pdf'' \<mapsto> [SetAutoPageBreak False 0, AddPage,
        SetFont ''Arial'' ''B'' 24, SetTextColor 100 100 100, Cell 0 12 ''Math'' ''L'' 1,
        Ln 265, SetFont ''Arial'' ''I'' 8, SetTextColor 180 180 180, Cell 0 10 ''Math'' ''R'' 0]]\<rparr>)"
    by (simp add: main_def generate_def example_world_def example_args_def fresh_process_def
        table_def init_def row_body_def row_getitem_def row_get_def add_page_def py_range_def
        range_length_def call_def print_def Let_def)
  show ?thesis
    unfolding run by (simp add: example_args_def pages_of_def)
qed

text \<open>
  C10. The pages depend only on the table and on the configuration. Two runs, in any two
  worlds and from any two process states, that agree on whether the input is a file, on what
  \<open>read_csv\<close> makes of it, on the text of floats, on the line spacing and on the font size
  make the same calls on the document, so they emit the same pages: header, rule lines and
  footer. Nothing else is read: not the output path, not whether the write raises, not what
  was printed before.
\<close>

theorem pages_determined_by_rows_and_configuration:
  assumes "isfile w1 (arg_csv a1) = isfile w2 (arg_csv a2)"
    and "read_csv w1 (arg_csv a1) = read_csv w2 (arg_csv a2)"
    and "float_repr w1 = float_repr w2"
    and "arg_lines a1 = arg_lines a2"
    and "arg_fontsize a1 = arg_fontsize a2"
  shows "pdf (fst (snd (main w1 a1 p1))) = pdf (fst (snd (main w2 a2 p2))) \<and>
         pages_of (pdf (fst (snd (main w1 a1 p1)))) = pages_of (pdf (fst (snd (main w2 a2 p2))))"
proof -
  let ?R = "\<lambda>g1 g2. pdf g1 = pdf g2 \<and> line_spacing g1 = line_spacing g2 \<and> font_size g1 = font_size g2"
  let ?g1 = "init (arg_csv a1) (arg_output a1) (arg_lines a1) (arg_fontsize a1)"
  let ?g2 = "init (arg_csv a2) (arg_output a2) (arg_lines a2) (arg_fontsize a2)"
  have start: "?R ?g1 ?g2" using assms(4,5) by (simp add: init_def)
  have loop: "pdf (snd (for_each rs (row_body w1) ?g1)) = pdf (snd (for_each rs (row_body w2) ?g2))"
    for rs
  proof -
    have "fst (for_each rs (row_body w1) ?g1) = fst (for_each rs (row_body w2) ?g2) \<and>
          ?R (snd (for_each rs (row_body w1) ?g1)) (snd (for_each rs (row_body w2) ?g2))"
    proof (rule for_each_rel [where R = ?R])
      show "fst (row_body w1 r s1) = fst (row_body w2 r s2) \<and>
            ?R (snd (row_body w1 r s1)) (snd (row_body w2 r s2))" if "?R s1 s2" for r s1 s2
        using assms(3) that by (rule row_body_agree)
      show "?R ?g1 ?g2" by (fact start)
    qed
    then show ?thesis by simp
  qed
  have csv: "csv_path ?g1 = arg_csv a1" "csv_path ?g2 = arg_csv a2" by (simp_all add: init_def)
  have "pdf (fst (snd (main w1 a1 p1))) = pdf (fst (snd (main w2 a2 p2)))"
    unfolding main_def generate_pdf csv
    using assms(1,2) start loop by (simp split: sum.splits)
  then show ?thesis by simp
qed

theorem pages_determined_by_rows_and_configuration_witness:
  "isfile (example_world (Inr (table [(PStr ''Math'', PInt 2)])) None)
      (arg_csv (example_args ''topics.csv'' 50)) =
   isfile (example_world (Inr (table [(PStr ''Math'', PInt 2)])) (Some OSError))
      (arg_csv (example_args ''topics.csv'' 50)) \<and>
   read_csv (example_world (Inr (table [(PStr ''Math'', PInt 2)])) None)
      (arg_csv (example_args ''topics.csv'' 50)) =
   read_csv (example_world (Inr (table [(PStr ''Math'', PInt 2)])) (Some OSError))
      (arg_csv (example_args ''topics.csv'' 50)) \<and>
   float_repr (example_world (Inr (table [(PStr ''Math'', PInt 2)])) None) =
   float_repr (example_world (Inr (table [(PStr ''Math'', PInt 2)])) (Some OSError)) \<and>
   pages_of (pdf (fst (snd (main (example_world (Inr (table [(PStr ''Math'', PInt 2)])) None)
      (example_args ''topics.csv'' 50) fresh_process)))) =
   pages_of (pdf (fst (snd (main (example_world (Inr (table [(PStr ''Math'', PInt 2)])) (Some OSError))
      (example_args ''topics.csv'' 50) (print ''earlier output'' fresh_process))))) \<and>
   fst (main (example_world (Inr (table [(PStr ''Math'', PInt 2)])) None)
      (example_args ''topics.csv'' 50) fresh_process) \<noteq>
   fst (main (example_world (Inr (table [(PStr ''Math'', PInt 2)])) (Some OSError))
      (example_args ''topics.csv'' 50) (print ''earlier output'' fresh_process))"
proof -
  let ?df = "Inr (table [(PStr ''Math'', PInt 2)]) :: string + dataframe"
  let ?w1 = "example_world ?df None"
  let ?w2 = "example_world ?df (Some OSError)"
  let ?a = "example_args ''topics.csv'' 50"
  have h1: "isfile ?w1 (arg_csv ?a) = isfile ?w2 (arg_csv ?a)" by (simp add: example_world_def)
  have h2: "read_csv ?w1 (arg_csv ?a) = read_csv ?w2 (arg_csv ?a)" by (simp add: example_world_def)
  have h3: "float_repr ?w1 = float_repr ?w2" by (simp add: example_world_def)
  have differ: "fst (main ?w1 ?a fresh_process) \<noteq>
      fst (main ?w2 ?a (print ''earlier output'' fresh_process))"
    by (simp add: main_def generate_def example_world_def example_args_def fresh_process_def
        table_def init_def row_body_def row_getitem_def row_get_def add_page_def py_range_def
        range_length_def call_def print_def Let_def upt_rec)
  from pages_determined_by_rows_and_configuration [OF h1 h2 h3 refl refl,
      of fresh_process "print ''earlier output'' fresh_process"] h1 h2 h3 differ
  show ?thesis by blast
qed

text \<open>
  C2. What the code does with a page count that \<open>int\<close> rejects. The column \<open>Pages\<close> exists, so
  \<open>row.get("Pages", 1)\<close> gives the cell and never the default 1; \<open>int\<close> of a missing value
  (NaN) or of the text \<open>abc\<close> raises \<open>ValueError\<close>, and nothing catches it: the run ends at
  that row with no page added, nothing printed and nothing written, and the rows after it
  are not processed.
\<close>

theorem uncoercible_pages_raise:
  "main (example_world (Inr (table [(PStr ''Math'', PNaN), (PStr ''History'', PInt 1)])) None)
      (example_args ''topics.csv'' 10) fresh_process =
     (Raised ValueError, init ''topics.csv'' ''output.pdf'' 10 24, fresh_process) \<and>
   main (example_world (Inr (table [(PStr ''Math'', PStr ''abc''), (PStr ''History'', PStr ''1'')])) None)
      (example_args ''topics.csv'' 10) fresh_process =
     (Raised ValueError, init ''topics.csv'' ''output.pdf'' 10 24, fresh_process)"
proof -
  have "py_int (PStr ''abc'') = Inl ValueError"
    by (simp add: int_of_str_def strip_def is_space_def int_literal_def is_digit_def
        int_max_str_digits_def Let_def)
  then show ?thesis
    by (simp add: main_def generate_def example_world_def example_args_def
        table_def init_def row_body_def row_getitem_def row_get_def Let_def)
qed

text \<open>
  C8. What the code does when the write fails. The exception \<open>FPDF.output\<close> raises is not
  caught in \<open>generate\<close> nor in \<open>main\<close>: it leaves \<open>main\<close> after the page has been emitted,
  the program prints no message of its own and no file is written.
\<close>

theorem write_failure_leaves_main:
  "fst (main (example_world (Inr (table [(PStr ''Math'', PInt 1)])) (Some OSError))
      (example_args ''topics.csv'' 10) fresh_process) = Raised OSError \<and>
   length (pages_of (pdf (fst (snd (main (example_world (Inr (table [(PStr ''Math'', PInt 1)])) (Some OSError))
      (example_args ''topics.csv'' 10) fresh_process))))) = 1 \<and>
   stdout (snd (snd (main (example_world (Inr (table [(PStr ''Math'', PInt 1)])) (Some OSError))
      (example_args ''topics.csv'' 10) fresh_process))) = [] \<and>
   disk (snd (snd (main (example_world (Inr (table [(PStr ''Math'', PInt 1)])) (Some OSError))
      (example_args ''topics.csv'' 10) fresh_process))) ''output.pdf'' = None"
proof -
  let ?w = "example_world (Inr (table [(PStr ''Math'', PInt 1)])) (Some OSError)"
  let ?g = "init ''topics.csv'' ''output.pdf'' 10 24"
  have rows: "for_each (df_rows (table [(PStr ''Math'', PInt 1)])) (row_body ?w) ?g =
      (Returned, ?g\<lparr>pdf := pdf ?g @ AddPage # page_body 24 10 ''Math''\<rparr>)"
  proof -
    have "line_spacing ?g \<noteq> 0" by (simp add: init_def)
    from add_page_nonzero [OF this, of "''Math''"] show ?thesis
      by (simp add: table_def row_body_def row_getitem_def row_get_def py_range_def
          range_length_def example_world_def init_def)
  qed
  have pages: "pages_of (pdf ?g @ AddPage # page_body 24 10 ''Math'') = [page_body 24 10 ''Math'']"
    using pages_of_append [of "[page_body 24 10 ''Math'']" "pdf ?g"]
    by (simp add: page_body_no_add_page init_def pages_of_def)
  have run: "main ?w (example_args ''topics.csv'' 10) fresh_process =
      (Raised OSError, ?g\<lparr>pdf := pdf ?g @ AddPage # page_body 24 10 ''Math''\<rparr>, fresh_process)"
    using rows
    by (simp add: main_def generate_def example_args_def)
       (simp add: example_world_def table_def init_def)
  show ?thesis
    unfolding run using pages by (simp add: fresh_process_def)
qed

end
